theory Spec2Isabelle
  imports Main
begin

unbundle bit_operations_syntax

section \<open>Strings\<close>

text \<open>
  A Python \<open>str\<close> is a sequence of code points. The model covers the strings whose code
  points lie in U+0000..U+00FF, one \<open>char\<close> per code point. On that range
  \<open>str.isspace\<close> (which both \<open>\s\<close> of \<open>re\<close> and \<open>str.strip\<close> use) holds for
  exactly the twelve code points below, and \<open>str.lower\<close> maps A..Z and the capital
  letters U+00C0..U+00DE (other than the multiplication sign U+00D7) 32 places up and
  leaves every other code point alone.
\<close>

definition is_space :: "char \<Rightarrow> bool" where
  "is_space c = (c \<in> set [CHR 0x09, CHR 0x0A, CHR 0x0B, CHR 0x0C, CHR 0x0D,
                            CHR 0x1C, CHR 0x1D, CHR 0x1E, CHR 0x1F, CHR 0x20, CHR 0x85, CHR 0xA0])"

definition upper_chars :: string where
  "upper_chars = ''ABCDEFGHIJKLMNOPQRSTUVWXYZ'' @
     [CHR 0xC0, CHR 0xC1, CHR 0xC2, CHR 0xC3, CHR 0xC4, CHR 0xC5, CHR 0xC6, CHR 0xC7,
      CHR 0xC8, CHR 0xC9, CHR 0xCA, CHR 0xCB, CHR 0xCC, CHR 0xCD, CHR 0xCE, CHR 0xCF,
      CHR 0xD0, CHR 0xD1, CHR 0xD2, CHR 0xD3, CHR 0xD4, CHR 0xD5, CHR 0xD6,
      CHR 0xD8, CHR 0xD9, CHR 0xDA, CHR 0xDB, CHR 0xDC, CHR 0xDD, CHR 0xDE]"

definition lower_chars :: string where
  "lower_chars = ''abcdefghijklmnopqrstuvwxyz'' @
     [CHR 0xE0, CHR 0xE1, CHR 0xE2, CHR 0xE3, CHR 0xE4, CHR 0xE5, CHR 0xE6, CHR 0xE7,
      CHR 0xE8, CHR 0xE9, CHR 0xEA, CHR 0xEB, CHR 0xEC, CHR 0xED, CHR 0xEE, CHR 0xEF,
      CHR 0xF0, CHR 0xF1, CHR 0xF2, CHR 0xF3, CHR 0xF4, CHR 0xF5, CHR 0xF6,
      CHR 0xF8, CHR 0xF9, CHR 0xFA, CHR 0xFB, CHR 0xFC, CHR 0xFD, CHR 0xFE]"

definition lower_char :: "char \<Rightarrow> char" where
  "lower_char c = (case map_of (zip upper_chars lower_chars) c of Some l \<Rightarrow> l | None \<Rightarrow> c)"

text \<open>\<open>re.sub(r"\s+", " ", s)\<close>: every maximal run of whitespace becomes one space.\<close>

function re_sub_ws :: "string \<Rightarrow> string" where
  "re_sub_ws [] = []"
| "re_sub_ws (c # cs) =
     (if is_space c then CHR '' '' # re_sub_ws (dropWhile is_space cs)
      else c # re_sub_ws cs)"
  by pat_completeness auto
termination
  by (relation "measure length") (auto simp: less_Suc_eq_le length_dropWhile_le)

text \<open>\<open>s.strip()\<close>: leading and trailing whitespace removed.\<close>

definition str_strip :: "string \<Rightarrow> string" where
  "str_strip s = rev (dropWhile is_space (rev (dropWhile is_space s)))"

text \<open>\<open>s.lower()\<close>.\<close>

definition str_lower :: "string \<Rightarrow> string" where
  "str_lower s = map lower_char s"

text \<open>\<open>x in t\<close> on strings: \<open>x\<close> occurs in \<open>t\<close> as a contiguous substring.\<close>

fun starts_with :: "string \<Rightarrow> string \<Rightarrow> bool" where
  "starts_with t [] = True"
| "starts_with [] (x # xs) = False"
| "starts_with (c # cs) (x # xs) = (c = x \<and> starts_with cs xs)"

fun str_in :: "string \<Rightarrow> string \<Rightarrow> bool" where
  "str_in x [] = (x = [])"
| "str_in x (c # cs) = (starts_with (c # cs) x \<or> str_in x cs)"

text \<open>
  \<open>normalize_text\<close>. The argument \<open>s or ""\<close> only matters for \<open>None\<close>; every caller
  passes a string.
\<close>

definition normalize_text :: "string \<Rightarrow> string" where
  "normalize_text s = str_lower (str_strip (re_sub_ws s))"

section \<open>SHA-256\<close>

text \<open>
  \<open>hashlib.sha256(b).hexdigest()\<close> is the SHA-256 of FIPS 180-4, printed as 64
  lower-case hexadecimal digits. Bytes and 32-bit words are natural numbers, the
  wrap-around of the additions written out.
\<close>

definition add32 :: "nat \<Rightarrow> nat \<Rightarrow> nat" where
  "add32 x y = (x + y) mod 4294967296"

definition not32 :: "nat \<Rightarrow> nat" where
  "not32 x = 4294967295 - x mod 4294967296"

definition rotr :: "nat \<Rightarrow> nat \<Rightarrow> nat" where
  "rotr n x = x div 2 ^ n + (x mod 2 ^ n) * 2 ^ (32 - n)"

definition Ch :: "nat \<Rightarrow> nat \<Rightarrow> nat \<Rightarrow> nat" where
  "Ch e f g = (e AND f) XOR (not32 e AND g)"

definition Maj :: "nat \<Rightarrow> nat \<Rightarrow> nat \<Rightarrow> nat" where
  "Maj a b c = (a AND b) XOR (a AND c) XOR (b AND c)"

definition bsig0 :: "nat \<Rightarrow> nat" where
  "bsig0 x = rotr 2 x XOR rotr 13 x XOR rotr 22 x"

definition bsig1 :: "nat \<Rightarrow> nat" where
  "bsig1 x = rotr 6 x XOR rotr 11 x XOR rotr 25 x"

definition ssig0 :: "nat \<Rightarrow> nat" where
  "ssig0 x = rotr 7 x XOR rotr 18 x XOR x div 2 ^ 3"

definition ssig1 :: "nat \<Rightarrow> nat" where
  "ssig1 x = rotr 17 x XOR rotr 19 x XOR x div 2 ^ 10"

definition sha256_K :: "nat list" where
  "sha256_K =
    [0x428A2F98, 0x71374491, 0xB5C0FBCF, 0xE9B5DBA5, 0x3956C25B, 0x59F111F1, 0x923F82A4, 0xAB1C5ED5,
     0xD807AA98, 0x12835B01, 0x243185BE, 0x550C7DC3, 0x72BE5D74, 0x80DEB1FE, 0x9BDC06A7, 0xC19BF174,
     0xE49B69C1, 0xEFBE4786, 0x0FC19DC6, 0x240CA1CC, 0x2DE92C6F, 0x4A7484AA, 0x5CB0A9DC, 0x76F988DA,
     0x983E5152, 0xA831C66D, 0xB00327C8, 0xBF597FC7, 0xC6E00BF3, 0xD5A79147, 0x06CA6351, 0x14292967,
     0x27B70A85, 0x2E1B2138, 0x4D2C6DFC, 0x53380D13, 0x650A7354, 0x766A0ABB, 0x81C2C92E, 0x92722C85,
     0xA2BFE8A1, 0xA81A664B, 0xC24B8B70, 0xC76C51A3, 0xD192E819, 0xD6990624, 0xF40E3585, 0x106AA070,
     0x19A4C116, 0x1E376C08, 0x2748774C, 0x34B0BCB5, 0x391C0CB3, 0x4ED8AA4A, 0x5B9CCA4F, 0x682E6FF3,
     0x748F82EE, 0x78A5636F, 0x84C87814, 0x8CC70208, 0x90BEFFFA, 0xA4506CEB, 0xBEF9A3F7, 0xC67178F2]"

definition sha256_init :: "nat list" where
  "sha256_init =
    [0x6A09E667, 0xBB67AE85, 0x3C6EF372, 0xA54FF53A, 0x510E527F, 0x9B05688C, 0x1F83D9AB, 0x5BE0CD19]"

text \<open>The message schedule: the window holds the last sixteen words, oldest first.\<close>

fun schedule_ext :: "nat \<Rightarrow> nat list \<Rightarrow> nat list" where
  "schedule_ext (Suc n) (w0 # w1 # w2 # w3 # w4 # w5 # w6 # w7 # w8 # w9 # w10 # w11 # w12 # w13 # w14 # w15 # _) =
     (let w = add32 (add32 (add32 (ssig1 w14) w9) (ssig0 w1)) w0
      in w # schedule_ext n [w1, w2, w3, w4, w5, w6, w7, w8, w9, w10, w11, w12, w13, w14, w15, w])"
| "schedule_ext _ _ = []"

definition schedule :: "nat list \<Rightarrow> nat list" where
  "schedule blk = blk @ schedule_ext 48 blk"

fun round_step :: "nat list \<Rightarrow> nat \<times> nat \<Rightarrow> nat list" where
  "round_step [a, b, c, d, e, f, g, h] (k, w) =
     (let t1 = add32 (add32 (add32 (add32 h (bsig1 e)) (Ch e f g)) k) w;
          t2 = add32 (bsig0 a) (Maj a b c)
      in [add32 t1 t2, a, b, c, add32 d t1, e, f, g])"
| "round_step s _ = s"

definition compress :: "nat list \<Rightarrow> nat list \<Rightarrow> nat list" where
  "compress hs blk = map2 add32 hs (foldl round_step hs (zip sha256_K (schedule blk)))"

fun be_words :: "nat list \<Rightarrow> nat list" where
  "be_words (a # b # c # d # rest) = (a * 16777216 + b * 65536 + c * 256 + d) # be_words rest"
| "be_words _ = []"

fun blocks16 :: "nat list \<Rightarrow> nat list list" where
  "blocks16 (w0 # w1 # w2 # w3 # w4 # w5 # w6 # w7 # w8 # w9 # w10 # w11 # w12 # w13 # w14 # w15 # rest) =
     [w0, w1, w2, w3, w4, w5, w6, w7, w8, w9, w10, w11, w12, w13, w14, w15] # blocks16 rest"
| "blocks16 _ = []"

definition be64 :: "nat \<Rightarrow> nat list" where
  "be64 n = map (\<lambda>i. (n div 256 ^ i) mod 256) [7, 6, 5, 4, 3, 2, 1, 0]"

definition sha256_pad :: "nat list \<Rightarrow> nat list" where
  "sha256_pad bs =
     bs @ [128] @ replicate ((64 - (length bs + 9) mod 64) mod 64) 0 @ be64 (8 * length bs)"

definition hex_digit :: "nat \<Rightarrow> char" where
  "hex_digit n = ''0123456789abcdef'' ! n"

definition hex32 :: "nat \<Rightarrow> string" where
  "hex32 w = map (\<lambda>i. hex_digit ((w div 16 ^ i) mod 16)) [7, 6, 5, 4, 3, 2, 1, 0]"

definition sha256_hexdigest :: "nat list \<Rightarrow> string" where
  "sha256_hexdigest bs =
     concat (map hex32 (foldl compress sha256_init (blocks16 (be_words (sha256_pad bs)))))"

text \<open>\<open>s.encode("utf-8")\<close> on code points below U+0100: one byte below 128, else two.\<close>

definition utf8 :: "string \<Rightarrow> nat list" where
  "utf8 s = concat (map (\<lambda>c. let n = of_char c :: nat in
      if n < 128 then [n] else [192 + n div 64, 128 + n mod 64]) s)"

section \<open>Fingerprint\<close>

text \<open>The string \<open>base\<close> that \<open>item_id\<close> hashes.\<close>

definition item_id_base :: "string \<Rightarrow> string \<Rightarrow> string" where
  "item_id_base ttl lnk = normalize_text ttl @ ''|'' @ normalize_text lnk"

definition item_id :: "string \<Rightarrow> string \<Rightarrow> string" where
  "item_id ttl lnk = sha256_hexdigest (utf8 (item_id_base ttl lnk))"

section \<open>Seen ledger\<close>

text \<open>
  The table \<open>seen (id TEXT PRIMARY KEY, first_seen_utc TEXT NOT NULL)\<close> is the list of
  its rows, oldest first. The state of a run is the table together with the number of
  times the UTC clock has been read; the parameter \<open>clk\<close> of the functions below gives
  \<open>datetime.now(timezone.utc).isoformat()\<close> at the k-th reading.
\<close>

type_synonym seen_table = "(string \<times> string) list"

record world =
  seen :: seen_table
  clock_reads :: nat

text \<open>\<open>SELECT 1 FROM seen WHERE id = ?\<close> returns a row.\<close>

definition already_seen :: "seen_table \<Rightarrow> string \<Rightarrow> bool" where
  "already_seen db iid = list_ex (\<lambda>row. fst row = iid) db"

text \<open>\<open>INSERT OR IGNORE\<close>: a row whose key is already in the table is dropped.\<close>

definition insert_or_ignore :: "string \<times> string \<Rightarrow> seen_table \<Rightarrow> seen_table" where
  "insert_or_ignore row db = (if list_ex (\<lambda>r. fst r = fst row) db then db else db @ [row])"

definition mark_seen :: "(nat \<Rightarrow> string) \<Rightarrow> string \<Rightarrow> world \<Rightarrow> world" where
  "mark_seen clk iid st =
     st\<lparr>seen := insert_or_ignore (iid, clk (clock_reads st)) (seen st),
        clock_reads := Suc (clock_reads st)\<rparr>"

section \<open>Configuration\<close>

text \<open>
  The configuration is the dictionary that \<open>yaml.safe_load\<close> returns; a key that may be
  absent is an option. \<open>cfg["k"]\<close> raises \<open>KeyError\<close> on an absent key and
  \<open>d.get("k", default)\<close> gives the default.
\<close>

datatype py_error = KeyError string

record keyword_policy =
  exclude_any :: "string list option"
  must_have_any :: "string list option"
  nice_to_have_any :: "string list option"

record email_config =
  subject_prefix :: string
  max_items :: int

record feed_source =
  src_name :: string
  src_type :: "string option"
  src_url :: string
  src_tags :: "string list option"

record config =
  cfg_sources :: "feed_source list option"
  cfg_keywords :: "keyword_policy option"
  cfg_email :: "email_config option"

definition dict_get :: "'a option \<Rightarrow> 'a \<Rightarrow> 'a" where
  "dict_get v d = (case v of None \<Rightarrow> d | Some x \<Rightarrow> x)"

section \<open>Relevance scorer\<close>

definition bonus_terms :: "string list" where
  "bonus_terms = [''rfp'', ''tender'', ''eoi'', ''expression of interest'', ''procurement'',
                  ''bid'', ''request for proposal'']"

definition score_item :: "string \<Rightarrow> config \<Rightarrow> py_error + (bool \<times> int)" where
  "score_item text cfg =
     (case cfg_keywords cfg of
        None \<Rightarrow> Inl (KeyError ''keywords'')
      | Some kw \<Rightarrow>
          (let t = normalize_text text
           in if list_ex (\<lambda>x. str_in (normalize_text x) t) (dict_get (exclude_any kw) [])
              then Inr (False, 0)
              else
                (let must = dict_get (must_have_any kw) []
                 in if must \<noteq> [] \<and> \<not> list_ex (\<lambda>x. str_in (normalize_text x) t) must
                    then Inr (False, 0)
                    else
                      (let score = 60;
                           nice = dict_get (nice_to_have_any kw) [];
                           score = score + 5 * sum_list (map (\<lambda>x. 1) (filter (\<lambda>x. str_in (normalize_text x) t) nice));
                           score = score + 5 * sum_list (map (\<lambda>x. 1) (filter (\<lambda>x. str_in x t) bonus_terms))
                       in Inr (True, min score 100)))))"

section \<open>Feed entries and items\<close>

record entry =
  e_title :: "string option"
  e_link :: "string option"
  e_summary :: "string option"
  e_description :: "string option"
  e_published :: "string option"
  e_updated :: "string option"
  e_created :: "string option"

record item =
  source :: string
  title :: string
  link :: string
  published :: string
  summary :: string
  tags :: "string list"
  score :: int

text \<open>
  \<open>parse_date\<close>. The parameter \<open>dp\<close> is \<open>dateparser.parse(v).date().isoformat()\<close>,
  with \<open>None\<close> where that raises.
\<close>

fun parse_date_keys :: "(string \<Rightarrow> string option) \<Rightarrow> string option list \<Rightarrow> string" where
  "parse_date_keys dp [] = []"
| "parse_date_keys dp (None # vs) = parse_date_keys dp vs"
| "parse_date_keys dp (Some v # vs) =
     (if v \<noteq> [] then (case dp v of Some d \<Rightarrow> d | None \<Rightarrow> parse_date_keys dp vs)
      else parse_date_keys dp vs)"

definition parse_date :: "(string \<Rightarrow> string option) \<Rightarrow> entry \<Rightarrow> string" where
  "parse_date dp e = parse_date_keys dp [e_published e, e_updated e, e_created e]"

text \<open>The fields that \<open>fetch_rss_source\<close> reads off an entry.\<close>

definition entry_title :: "entry \<Rightarrow> string" where
  "entry_title e = str_strip (dict_get (e_title e) [])"

definition entry_link :: "entry \<Rightarrow> string" where
  "entry_link e = str_strip (dict_get (e_link e) [])"

definition entry_summary :: "entry \<Rightarrow> string" where
  "entry_summary e =
     str_strip (if dict_get (e_summary e) [] \<noteq> [] then dict_get (e_summary e) []
                else if dict_get (e_description e) [] \<noteq> [] then dict_get (e_description e) []
                else [])"

definition entry_blob :: "entry \<Rightarrow> string" where
  "entry_blob e = entry_title e @ [CHR 0x0A] @ entry_summary e"

definition entry_id :: "entry \<Rightarrow> string" where
  "entry_id e = item_id (entry_title e) (entry_link e)"

text \<open>
  \<open>re.sub("<[^<]+?>", " ", summary)\<close>: a tag is \<open><\<close>, one or more characters other
  than \<open><\<close>, as few as possible, and \<open>>\<close>. \<open>tag_close\<close> looks for the closing \<open>>\<close>
  after the first character of the body.
\<close>

fun tag_close :: "string \<Rightarrow> string option" where
  "tag_close [] = None"
| "tag_close (c # cs) =
     (if c = CHR ''>'' then Some cs else if c = CHR ''<'' then None else tag_close cs)"

function strip_tags :: "string \<Rightarrow> string" where
  "strip_tags [] = []"
| "strip_tags (c # cs) =
     (if c = CHR ''<'' then
        (case cs of
           [] \<Rightarrow> [c]
         | d # ds \<Rightarrow>
             (if d = CHR ''<'' then c # strip_tags cs
              else (case tag_close ds of
                      Some r \<Rightarrow> CHR '' '' # strip_tags r
                    | None \<Rightarrow> c # strip_tags cs)))
      else c # strip_tags cs)"
  by pat_completeness auto
termination
proof (relation "measure length")
  have tc: "tag_close ds = Some r \<Longrightarrow> length r < length ds" for ds r
    by (induction ds) (auto split: if_splits)
  fix c :: char and cs x21 x22 x2
  assume "cs = x21 # x22" "tag_close x22 = Some x2"
  then show "(x2, c # cs) \<in> measure length"
    using tc [of x22 x2] by simp
qed auto

definition make_item :: "(string \<Rightarrow> string option) \<Rightarrow> feed_source \<Rightarrow> entry \<Rightarrow> int \<Rightarrow> item" where
  "make_item dp src e sc =
     \<lparr> source = src_name src,
       title = (if entry_title e \<noteq> [] then entry_title e else ''(no title)''),
       link = entry_link e,
       published = parse_date dp e,
       summary = take 500 (strip_tags (entry_summary e)),
       tags = dict_get (src_tags src) [],
       score = sc \<rparr>"

section \<open>Pipeline\<close>

text \<open>
  The loop of \<open>fetch_rss_source\<close> over the entries, with the list \<open>items\<close> and the
  state threaded through. An exception leaves the state as it was when it was raised.
\<close>

fun fetch_rss_loop ::
  "(nat \<Rightarrow> string) \<Rightarrow> (string \<Rightarrow> string option) \<Rightarrow> feed_source \<Rightarrow> config \<Rightarrow>
   entry list \<Rightarrow> item list \<Rightarrow> world \<Rightarrow> (py_error + item list) \<times> world" where
  "fetch_rss_loop clk dp src cfg [] items st = (Inr items, st)"
| "fetch_rss_loop clk dp src cfg (e # es) items st =
     (case score_item (entry_blob e) cfg of
        Inl err \<Rightarrow> (Inl err, st)
      | Inr (keep, sc) \<Rightarrow>
          if \<not> keep then fetch_rss_loop clk dp src cfg es items st
          else if already_seen (seen st) (entry_id e) then fetch_rss_loop clk dp src cfg es items st
          else fetch_rss_loop clk dp src cfg es (items @ [make_item dp src e sc])
                 (mark_seen clk (entry_id e) st))"

text \<open>The parameter \<open>feed\<close> is \<open>feedparser.parse(url).entries\<close>.\<close>

definition fetch_rss_source ::
  "(nat \<Rightarrow> string) \<Rightarrow> (string \<Rightarrow> string option) \<Rightarrow> (string \<Rightarrow> entry list) \<Rightarrow>
   feed_source \<Rightarrow> config \<Rightarrow> world \<Rightarrow> (py_error + item list) \<times> world" where
  "fetch_rss_source clk dp feed src cfg st =
     fetch_rss_loop clk dp src cfg (take 200 (feed (src_url src))) [] st"

text \<open>
  The sort of \<open>build_email_html\<close>: \<open>sorted(items, key=(score, published), reverse=True)\<close>
  is stable, so items with equal keys keep their order. Strings compare by code point.
\<close>

fun str_lt :: "string \<Rightarrow> string \<Rightarrow> bool" where
  "str_lt [] [] = False"
| "str_lt [] (b # bs) = True"
| "str_lt (a # as) [] = False"
| "str_lt (a # as) (b # bs) = ((of_char a :: nat) < of_char b \<or> (a = b \<and> str_lt as bs))"

definition key_lt :: "item \<Rightarrow> item \<Rightarrow> bool" where
  "key_lt x y = (score x < score y \<or> (score x = score y \<and> str_lt (published x) (published y)))"

fun insert_rev :: "item \<Rightarrow> item list \<Rightarrow> item list" where
  "insert_rev x [] = [x]"
| "insert_rev x (y # ys) = (if key_lt x y then y # insert_rev x ys else x # y # ys)"

fun sorted_rev :: "item list \<Rightarrow> item list" where
  "sorted_rev [] = []"
| "sorted_rev (x # xs) = insert_rev x (sorted_rev xs)"

text \<open>The slice \<open>xs[:n]\<close>; a negative \<open>n\<close> counts from the end.\<close>

definition slice_to :: "'a list \<Rightarrow> int \<Rightarrow> 'a list" where
  "slice_to xs n = (if 0 \<le> n then take (nat n) xs else take (length xs - nat (- n)) xs)"

definition items_sorted :: "item list \<Rightarrow> config \<Rightarrow> py_error + item list" where
  "items_sorted items cfg =
     (case cfg_email cfg of
        None \<Rightarrow> Inl (KeyError ''email'')
      | Some em \<Rightarrow> Inr (slice_to (sorted_rev items) (max_items em)))"

text \<open>
  \<open>main\<close>, up to the list \<open>items_sorted\<close> that the digest shows: the sources of type
  \<open>rss\<close> in order, the others skipped.
\<close>

fun main_loop ::
  "(nat \<Rightarrow> string) \<Rightarrow> (string \<Rightarrow> string option) \<Rightarrow> (string \<Rightarrow> entry list) \<Rightarrow> config \<Rightarrow>
   feed_source list \<Rightarrow> item list \<Rightarrow> world \<Rightarrow> (py_error + item list) \<times> world" where
  "main_loop clk dp feed cfg [] all_items st = (Inr all_items, st)"
| "main_loop clk dp feed cfg (src # srcs) all_items st =
     (if src_type src = Some ''rss'' then
        (case fetch_rss_source clk dp feed src cfg st of
           (Inl err, st') \<Rightarrow> (Inl err, st')
         | (Inr items, st') \<Rightarrow> main_loop clk dp feed cfg srcs (all_items @ items) st')
      else main_loop clk dp feed cfg srcs all_items st)"

definition main ::
  "(nat \<Rightarrow> string) \<Rightarrow> (string \<Rightarrow> string option) \<Rightarrow> (string \<Rightarrow> entry list) \<Rightarrow> config \<Rightarrow>
   world \<Rightarrow> (py_error + item list) \<times> world" where
  "main clk dp feed cfg st =
     (case main_loop clk dp feed cfg (dict_get (cfg_sources cfg) []) [] st of
        (Inl err, st') \<Rightarrow> (Inl err, st')
      | (Inr all_items, st') \<Rightarrow> (items_sorted all_items cfg, st'))"

section \<open>Strings that differ only in whitespace runs or letter case\<close>

text \<open>
  The relation that the specification words, defined apart from \<open>normalize_text\<close>:
  \<open>split_ws\<close> gives the maximal runs of characters that are not whitespace (Python's
  \<open>s.split()\<close>), and two strings are equivalent when these runs are the same up to letter
  case. \<open>join_sp\<close> puts one space between the runs.
\<close>

function split_ws :: "string \<Rightarrow> string list" where
  "split_ws s =
     (case dropWhile is_space s of
        [] \<Rightarrow> []
      | c # cs \<Rightarrow> (c # takeWhile (\<lambda>x. \<not> is_space x) cs) #
                  split_ws (dropWhile (\<lambda>x. \<not> is_space x) cs))"
  by pat_completeness auto
termination
proof (relation "measure length")
  fix s :: string and c cs
  assume d: "dropWhile is_space s = c # cs"
  have "length (dropWhile (\<lambda>x. \<not> is_space x) cs) \<le> length cs"
    by (rule length_dropWhile_le)
  also have "length cs < length (dropWhile is_space s)"
    by (simp add: d)
  also have "\<dots> \<le> length s"
    by (rule length_dropWhile_le)
  finally show "(dropWhile (\<lambda>x. \<not> is_space x) cs, s) \<in> measure length"
    by simp
qed simp

fun join_sp :: "string list \<Rightarrow> string" where
  "join_sp [] = []"
| "join_sp [w] = w"
| "join_sp (w # v # ws) = w @ CHR '' '' # join_sp (v # ws)"

definition ws_case_equiv :: "string \<Rightarrow> string \<Rightarrow> bool" where
  "ws_case_equiv s t = (map str_lower (split_ws s) = map str_lower (split_ws t))"

section \<open>Example inputs\<close>

text \<open>A configuration with the three keyword tiers given and nothing else.\<close>

definition ex_cfg :: "string list option \<Rightarrow> string list option \<Rightarrow> string list option \<Rightarrow> config" where
  "ex_cfg ex must nice = \<lparr>cfg_sources = None,
     cfg_keywords = Some \<lparr>exclude_any = ex, must_have_any = must, nice_to_have_any = nice\<rparr>,
     cfg_email = None\<rparr>"




text \<open>
  A feed of two entries with the same title and different links, a source that reads it,
  and a configuration that finds every entry relevant and shows one item.
\<close>

definition ex_entry :: "string \<Rightarrow> entry" where
  "ex_entry lnk = \<lparr>e_title = Some ''Hello World'', e_link = Some lnk, e_summary = None,
     e_description = None, e_published = None, e_updated = None, e_created = None\<rparr>"

definition ex_feed :: "string \<Rightarrow> entry list" where
  "ex_feed url = (if url = ''http://x/feed'' then [ex_entry ''http://x/y'', ex_entry ''http://x/z''] else [])"

definition ex_src :: feed_source where
  "ex_src = \<lparr>src_name = ''X'', src_type = Some ''rss'', src_url = ''http://x/feed'',
     src_tags = Some [''apac'']\<rparr>"

definition ex_run_cfg :: config where
  "ex_run_cfg = \<lparr>cfg_sources = Some [ex_src],
     cfg_keywords = Some \<lparr>exclude_any = None, must_have_any = None, nice_to_have_any = None\<rparr>,
     cfg_email = Some \<lparr>subject_prefix = ''[Monitor]'', max_items = 1\<rparr>\<rparr>"

text \<open>A clock whose k-th reading is k seconds after midnight, for k below 10.\<close>

definition ex_clock :: "nat \<Rightarrow> string" where
  "ex_clock k = ''2024-03-01T00:00:0'' @ [''0123456789'' ! (k mod 10)] @ ''+00:00''"

text \<open>A date parser that takes a ten-character date as it is and raises on anything else.\<close>

definition ex_dp :: "string \<Rightarrow> string option" where
  "ex_dp v = (if length v = 10 then Some v else None)"

definition ex_item :: "string \<Rightarrow> item" where
  "ex_item lnk = \<lparr>source = ''X'', title = ''Hello World'', link = lnk, published = [],
     summary = [], tags = [''apac''], score = 60\<rparr>"

text \<open>The empty table, before the clock was read.\<close>

definition ex_st0 :: world where
  "ex_st0 = \<lparr>seen = [], clock_reads = 0\<rparr>"

text \<open>The table after the first run over the feed.\<close>

definition ex_st2 :: world where
  "ex_st2 = \<lparr>seen =
       [(''56a6edb621e9f397a682a358b95ea0b50ad294cdfd06436d4d10ee30e9c5ddac'', ''2024-03-01T00:00:00+00:00''),
        (''de041d8e21d922b9806adf6d1a520aed28a25363fcfd4846a0b43fc1f4e3456d'', ''2024-03-01T00:00:01+00:00'')],
     clock_reads = 2\<rparr>"

text \<open>The first entry of the feed after an edit of its summary and its date.\<close>

definition ex_entry_edited :: entry where
  "ex_entry_edited = (ex_entry ''http://x/y'')
     \<lparr>e_summary := Some ''Updated: RFP deadline extended'', e_published := Some ''2024-02-01''\<rparr>"

text \<open>An item with the given score and date, and a configuration that shows \<open>n\<close> items.\<close>

definition ex_ranked :: "int \<Rightarrow> string \<Rightarrow> item" where
  "ex_ranked sc d = \<lparr>source = ''X'', title = ''T'', link = ''L'', published = d,
     summary = [], tags = [], score = sc\<rparr>"

definition ex_show_cfg :: "int \<Rightarrow> config" where
  "ex_show_cfg n = \<lparr>cfg_sources = None, cfg_keywords = None,
     cfg_email = Some \<lparr>subject_prefix = ''[Monitor]'', max_items = n\<rparr>\<rparr>"

section \<open>Substrings\<close>

text \<open>\<open>str_in\<close> is the substring relation.\<close>

lemma starts_with_iff: "starts_with t x \<longleftrightarrow> (\<exists>s. t = x @ s)"
  by (induction t x rule: starts_with.induct) auto

lemma str_in_iff: "str_in x t \<longleftrightarrow> (\<exists>p s. t = p @ x @ s)"
proof (induction t)
  case Nil
  then show ?case by simp
next
  case (Cons c cs)
  show ?case
  proof
    assume "str_in x (c # cs)"
    then consider "starts_with (c # cs) x" | "str_in x cs" by auto
    then show "\<exists>p s. c # cs = p @ x @ s"
    proof cases
      case 1
      then obtain s where "c # cs = x @ s" using starts_with_iff by blast
      then have "c # cs = [] @ x @ s" by simp
      then show ?thesis by blast
    next
      case 2
      then obtain p s where "cs = p @ x @ s" using Cons.IH by blast
      then have "c # cs = (c # p) @ x @ s" by simp
      then show ?thesis by blast
    qed
  next
    assume "\<exists>p s. c # cs = p @ x @ s"
    then obtain p s where ps: "c # cs = p @ x @ s" by blast
    show "str_in x (c # cs)"
    proof (cases p)
      case Nil
      with ps have "starts_with (c # cs) x" using starts_with_iff by auto
      then show ?thesis by simp
    next
      case (Cons a p')
      with ps have "cs = p' @ x @ s" by simp
      then have "str_in x cs" using Cons.IH by blast
      then show ?thesis by simp
    qed
  qed
qed

section \<open>Relevance scorer: gates and score\<close>

lemmas text_eval = normalize_text_def str_lower_def str_strip_def is_space_def lower_char_def
  upper_chars_def lower_chars_def

lemma sum_ones: "sum_list (map (\<lambda>x. 1) xs) = int (length xs)"
  by (induction xs) auto

lemma score_item_Some:
  "cfg_keywords cfg = Some kw \<Longrightarrow>
   score_item text cfg =
     (if list_ex (\<lambda>x. str_in (normalize_text x) (normalize_text text)) (dict_get (exclude_any kw) [])
      then Inr (False, 0)
      else if dict_get (must_have_any kw) [] \<noteq> [] \<and>
              \<not> list_ex (\<lambda>x. str_in (normalize_text x) (normalize_text text)) (dict_get (must_have_any kw) [])
      then Inr (False, 0)
      else Inr (True, min (60
             + 5 * int (length (filter (\<lambda>x. str_in (normalize_text x) (normalize_text text)) (dict_get (nice_to_have_any kw) [])))
             + 5 * int (length (filter (\<lambda>x. str_in x (normalize_text text)) bonus_terms))) 100))"
  by (simp add: score_item_def Let_def sum_ones)

text \<open>
  C4. The gates of the scorer, in order: a normalized phrase of \<open>exclude_any\<close> that occurs
  in the normalized text gives \<open>(False, 0)\<close> whatever else matches; otherwise a non-empty
  \<open>must_have_any\<close> none of whose normalized phrases occurs gives \<open>(False, 0)\<close>.
\<close>

theorem score_item_gates:
  "cfg_keywords cfg = Some kw \<Longrightarrow>
   ((\<exists>x \<in> set (dict_get (exclude_any kw) []). str_in (normalize_text x) (normalize_text text))
      \<longrightarrow> score_item text cfg = Inr (False, 0)) \<and>
   (\<not> (\<exists>x \<in> set (dict_get (exclude_any kw) []). str_in (normalize_text x) (normalize_text text)) \<and>
    dict_get (must_have_any kw) [] \<noteq> [] \<and>
    (\<forall>x \<in> set (dict_get (must_have_any kw) []). \<not> str_in (normalize_text x) (normalize_text text))
      \<longrightarrow> score_item text cfg = Inr (False, 0))"
  by (simp add: score_item_Some list_ex_iff)

theorem score_item_gates_witness:
  "score_item ''RFP cancelled'' (ex_cfg (Some [''cancelled'']) (Some [''rfp'']) None) = Inr (False, 0) \<and>
   score_item ''general news'' (ex_cfg None (Some [''tender'']) None) = Inr (False, 0)"
proof -
  let ?kw1 = "\<lparr>exclude_any = Some [''cancelled''], must_have_any = Some [''rfp''], nice_to_have_any = None\<rparr>"
  let ?kw2 = "\<lparr>exclude_any = None, must_have_any = Some [''tender''], nice_to_have_any = None\<rparr>"
  have k1: "cfg_keywords (ex_cfg (Some [''cancelled'']) (Some [''rfp'']) None) = Some ?kw1"
    by (simp add: ex_cfg_def)
  have k2: "cfg_keywords (ex_cfg None (Some [''tender'']) None) = Some ?kw2"
    by (simp add: ex_cfg_def)
  have h1: "\<exists>x \<in> set (dict_get (exclude_any ?kw1) []).
              str_in (normalize_text x) (normalize_text ''RFP cancelled'')"
    by (simp add: dict_get_def text_eval)
  have h2: "\<not> (\<exists>x \<in> set (dict_get (exclude_any ?kw2) []).
              str_in (normalize_text x) (normalize_text ''general news'')) \<and>
            dict_get (must_have_any ?kw2) [] \<noteq> [] \<and>
            (\<forall>x \<in> set (dict_get (must_have_any ?kw2) []).
              \<not> str_in (normalize_text x) (normalize_text ''general news''))"
    by (simp add: dict_get_def text_eval)
  from score_item_gates [OF k1, of "''RFP cancelled''"] h1
  have a: "score_item ''RFP cancelled'' (ex_cfg (Some [''cancelled'']) (Some [''rfp'']) None) = Inr (False, 0)"
    by blast
  from score_item_gates [OF k2, of "''general news''"] h2
  have b: "score_item ''general news'' (ex_cfg None (Some [''tender'']) None) = Inr (False, 0)"
    by blast
  from a b show ?thesis by simp
qed







section \<open>Seen ledger\<close>

lemma already_seen_iff: "already_seen db iid \<longleftrightarrow> iid \<in> fst ` set db"
  by (auto simp: already_seen_def list_ex_iff)

lemma filter_key_empty: "\<not> already_seen db iid \<Longrightarrow> filter (\<lambda>row. fst row = iid) db = []"
  by (auto simp: already_seen_iff filter_empty_conv)

lemma insert_or_ignore_present:
  "already_seen db (fst row) \<Longrightarrow> insert_or_ignore row db = db"
  by (simp add: insert_or_ignore_def already_seen_def)

lemma insert_or_ignore_absent:
  "\<not> already_seen db (fst row) \<Longrightarrow> insert_or_ignore row db = db @ [row]"
  by (simp add: insert_or_ignore_def already_seen_def)

lemma seen_mark_seen_present:
  "already_seen (seen st) iid \<Longrightarrow> seen (mark_seen clk iid st) = seen st"
  by (simp add: mark_seen_def insert_or_ignore_present)

lemma seen_mark_seen_absent:
  "\<not> already_seen (seen st) iid \<Longrightarrow>
   seen (mark_seen clk iid st) = seen st @ [(iid, clk (clock_reads st))]"
  by (simp add: mark_seen_def insert_or_ignore_absent)

lemma clock_reads_mark_seen: "clock_reads (mark_seen clk iid st) = Suc (clock_reads st)"
  by (simp add: mark_seen_def)

lemma already_seen_mark_seen:
  "already_seen (seen (mark_seen clk i st)) iid \<longleftrightarrow> i = iid \<or> already_seen (seen st) iid"
  by (cases "already_seen (seen st) i")
     (auto simp: seen_mark_seen_present seen_mark_seen_absent already_seen_iff)

lemma filter_other_mark_seen:
  "i \<noteq> iid \<Longrightarrow>
   filter (\<lambda>row. fst row = iid) (seen (mark_seen clk i st)) = filter (\<lambda>row. fst row = iid) (seen st)"
  by (cases "already_seen (seen st) i") (simp_all add: seen_mark_seen_present seen_mark_seen_absent)

lemma filter_key_marks_present:
  "already_seen (seen st) iid \<Longrightarrow>
   filter (\<lambda>row. fst row = iid) (seen (foldl (\<lambda>s i. mark_seen clk i s) st ids)) =
   filter (\<lambda>row. fst row = iid) (seen st)"
proof (induction ids arbitrary: st)
  case Nil
  then show ?case by simp
next
  case (Cons i ids)
  have keep: "already_seen (seen (mark_seen clk i st)) iid"
    using Cons.prems by (simp add: already_seen_mark_seen)
  have "filter (\<lambda>row. fst row = iid) (seen (mark_seen clk i st)) =
        filter (\<lambda>row. fst row = iid) (seen st)"
  proof (cases "i = iid")
    case True
    with Cons.prems show ?thesis by (simp add: seen_mark_seen_present)
  next
    case False
    then show ?thesis by (rule filter_other_mark_seen)
  qed
  with Cons.IH [OF keep] show ?case by simp
qed

lemma filter_key_marks_absent:
  "\<not> already_seen (seen st) iid \<Longrightarrow> iid \<in> set ids \<Longrightarrow>
   filter (\<lambda>row. fst row = iid) (seen (foldl (\<lambda>s i. mark_seen clk i s) st ids)) =
   [(iid, clk (clock_reads st + length (takeWhile (\<lambda>i. i \<noteq> iid) ids)))]"
proof (induction ids arbitrary: st)
  case Nil
  then show ?case by simp
next
  case (Cons i ids)
  show ?case
  proof (cases "i = iid")
    case True
    have now: "already_seen (seen (mark_seen clk iid st)) iid"
      by (simp add: already_seen_mark_seen)
    have "filter (\<lambda>row. fst row = iid) (seen (mark_seen clk iid st)) = [(iid, clk (clock_reads st))]"
      using Cons.prems(1) by (simp add: seen_mark_seen_absent filter_key_empty)
    with filter_key_marks_present [OF now, of clk ids] True show ?thesis by simp
  next
    case False
    have still: "\<not> already_seen (seen (mark_seen clk i st)) iid"
      using Cons.prems(1) False by (simp add: already_seen_mark_seen)
    from Cons.prems(2) False have "iid \<in> set ids" by simp
    from Cons.IH [OF still this] False show ?thesis
      by (simp add: clock_reads_mark_seen)
  qed
qed

text \<open>
  C2. Take any sequence of \<open>mark_seen\<close> calls, for \<open>iid\<close> and for other keys, on a
  table that has no row for \<open>iid\<close>. If \<open>iid\<close> is marked at least once, the table ends
  with exactly one row for it, stamped with the clock reading of the first of its calls;
  in particular after \<open>n > 0\<close> calls for \<open>iid\<close> alone. A call for a key that has a row
  leaves the table as it is.
\<close>

theorem mark_seen_idempotent:
  "\<not> already_seen (seen st) iid \<Longrightarrow> iid \<in> set ids \<Longrightarrow>
   filter (\<lambda>row. fst row = iid) (seen (foldl (\<lambda>s i. mark_seen clk i s) st ids)) =
     [(iid, clk (clock_reads st + length (takeWhile (\<lambda>i. i \<noteq> iid) ids)))] \<and>
   (\<forall>n. 0 < n \<longrightarrow>
      filter (\<lambda>row. fst row = iid) (seen (foldl (\<lambda>s i. mark_seen clk i s) st (replicate n iid))) =
        [(iid, clk (clock_reads st))]) \<and>
   (\<forall>st'. already_seen (seen st') iid \<longrightarrow> seen (mark_seen clk iid st') = seen st')"
proof (intro conjI allI impI)
  assume a: "\<not> already_seen (seen st) iid" and b: "iid \<in> set ids"
  then show "filter (\<lambda>row. fst row = iid) (seen (foldl (\<lambda>s i. mark_seen clk i s) st ids)) =
     [(iid, clk (clock_reads st + length (takeWhile (\<lambda>i. i \<noteq> iid) ids)))]"
    by (rule filter_key_marks_absent)
next
  fix n :: nat
  assume a: "\<not> already_seen (seen st) iid" and n: "0 < n"
  then have "iid \<in> set (replicate n iid)" by simp
  from filter_key_marks_absent [OF a this, of clk]
  show "filter (\<lambda>row. fst row = iid) (seen (foldl (\<lambda>s i. mark_seen clk i s) st (replicate n iid))) =
        [(iid, clk (clock_reads st))]"
    using n by (cases n) simp_all
next
  fix st' :: world
  assume "already_seen (seen st') iid"
  then show "seen (mark_seen clk iid st') = seen st'"
    by (rule seen_mark_seen_present)
qed


section \<open>Pipeline\<close>

lemma fetch_rss_loop_Cons:
  "fetch_rss_loop clk dp src cfg (e # es) items st =
     (case score_item (entry_blob e) cfg of
        Inl err \<Rightarrow> (Inl err, st)
      | Inr r \<Rightarrow>
          if \<not> fst r \<or> already_seen (seen st) (entry_id e)
          then fetch_rss_loop clk dp src cfg es items st
          else fetch_rss_loop clk dp src cfg es (items @ [make_item dp src e (snd r)])
                 (mark_seen clk (entry_id e) st))"
  by (simp split: sum.splits prod.splits)

declare fetch_rss_loop.simps(2) [simp del]

lemma fetch_rss_loop_mono:
  "fetch_rss_loop clk dp src cfg es items st = (r, st') \<Longrightarrow>
   already_seen (seen st) iid \<Longrightarrow> already_seen (seen st') iid"
proof (induction es arbitrary: items st)
  case Nil
  then show ?case by simp
next
  case (Cons e es)
  show ?case
  proof (cases "score_item (entry_blob e) cfg")
    case (Inl err)
    with Cons.prems show ?thesis by (simp add: fetch_rss_loop_Cons)
  next
    case (Inr ks)
    show ?thesis
    proof (cases "\<not> fst ks \<or> already_seen (seen st) (entry_id e)")
      case True
      with Cons.prems Inr have "fetch_rss_loop clk dp src cfg es items st = (r, st')"
        by (simp add: fetch_rss_loop_Cons)
      from Cons.IH [OF this Cons.prems(2)] show ?thesis .
    next
      case False
      with Cons.prems Inr
      have run: "fetch_rss_loop clk dp src cfg es (items @ [make_item dp src e (snd ks)])
                   (mark_seen clk (entry_id e) st) = (r, st')"
        by (simp add: fetch_rss_loop_Cons)
      have "already_seen (seen (mark_seen clk (entry_id e) st)) iid"
        using Cons.prems(2) by (simp add: already_seen_mark_seen)
      from Cons.IH [OF run this] show ?thesis .
    qed
  qed
qed

lemma fetch_rss_loop_marks:
  "fetch_rss_loop clk dp src cfg es items st = (Inr out, st') \<Longrightarrow> e \<in> set es \<Longrightarrow>
   score_item (entry_blob e) cfg = Inr (True, sc) \<Longrightarrow> already_seen (seen st') (entry_id e)"
proof (induction es arbitrary: items st)
  case Nil
  then show ?case by simp
next
  case (Cons x es)
  from Cons.prems(1) obtain ks where ks: "score_item (entry_blob x) cfg = Inr ks"
    by (cases "score_item (entry_blob x) cfg") (simp_all add: fetch_rss_loop_Cons)
  show ?case
  proof (cases "\<not> fst ks \<or> already_seen (seen st) (entry_id x)")
    case True
    with Cons.prems(1) ks have run: "fetch_rss_loop clk dp src cfg es items st = (Inr out, st')"
      by (simp add: fetch_rss_loop_Cons)
    show ?thesis
    proof (cases "e = x")
      case True
      with Cons.prems(3) ks \<open>\<not> fst ks \<or> already_seen (seen st) (entry_id x)\<close>
      have "already_seen (seen st) (entry_id e)" by auto
      with run show ?thesis by (rule fetch_rss_loop_mono)
    next
      case False
      with Cons.prems(2) have "e \<in> set es" by simp
      from Cons.IH [OF run this Cons.prems(3)] show ?thesis .
    qed
  next
    case False
    with Cons.prems(1) ks
    have run: "fetch_rss_loop clk dp src cfg es (items @ [make_item dp src x (snd ks)])
                 (mark_seen clk (entry_id x) st) = (Inr out, st')"
      by (simp add: fetch_rss_loop_Cons)
    show ?thesis
    proof (cases "e = x")
      case True
      have "already_seen (seen (mark_seen clk (entry_id x) st)) (entry_id e)"
        using True by (simp add: already_seen_mark_seen)
      with run show ?thesis by (rule fetch_rss_loop_mono)
    next
      case False
      with Cons.prems(2) have "e \<in> set es" by simp
      from Cons.IH [OF run this Cons.prems(3)] show ?thesis .
    qed
  qed
qed

text \<open>
  A second pass over entries that an earlier, completed pass has gone through, from any
  state whose table holds the keys the earlier pass left, adds no item and changes
  nothing.
\<close>

lemma fetch_rss_loop_second:
  "fetch_rss_loop clk dp src cfg es items0 st0 = (Inr out, st1) \<Longrightarrow>
   (\<And>iid. already_seen (seen st1) iid \<Longrightarrow> already_seen (seen st) iid) \<Longrightarrow>
   fetch_rss_loop clk' dp' src' cfg es items st = (Inr items, st)"
proof (induction es arbitrary: items0 st0)
  case Nil
  then show ?case by simp
next
  case (Cons x es)
  from Cons.prems(1) obtain ks where ks: "score_item (entry_blob x) cfg = Inr ks"
    by (cases "score_item (entry_blob x) cfg") (simp_all add: fetch_rss_loop_Cons)
  have skip: "\<not> fst ks \<or> already_seen (seen st) (entry_id x)"
  proof (cases "fst ks")
    case True
    then have "score_item (entry_blob x) cfg = Inr (True, snd ks)"
      using ks by (cases ks) simp
    from fetch_rss_loop_marks [OF Cons.prems(1) _ this]
    have "already_seen (seen st1) (entry_id x)" by simp
    then show ?thesis using Cons.prems(2) by blast
  next
    case False
    then show ?thesis by simp
  qed
  obtain items0' st0' where
    rest: "fetch_rss_loop clk dp src cfg es items0' st0' = (Inr out, st1)"
    using Cons.prems(1) ks by (auto simp: fetch_rss_loop_Cons split: if_splits)
  from Cons.IH [OF rest Cons.prems(2)]
  have "fetch_rss_loop clk' dp' src' cfg es items st = (Inr items, st)" by simp
  with ks skip show ?case by (simp add: fetch_rss_loop_Cons)
qed

lemma fetch_rss_loop_append:
  "fetch_rss_loop clk dp src cfg (es1 @ es2) items st =
     (case fetch_rss_loop clk dp src cfg es1 items st of
        (Inl err, st') \<Rightarrow> (Inl err, st')
      | (Inr items', st') \<Rightarrow> fetch_rss_loop clk dp src cfg es2 items' st')"
proof (induction es1 arbitrary: items st)
  case Nil
  then show ?case by simp
next
  case (Cons x es1)
  show ?case
    by (cases "score_item (entry_blob x) cfg")
       (simp_all add: fetch_rss_loop_Cons Cons.IH)
qed

lemma main_loop_Cons_rss:
  "src_type src = Some ''rss'' \<Longrightarrow>
   main_loop clk dp feed cfg (src # srcs) all_items st =
     (case fetch_rss_source clk dp feed src cfg st of
        (Inl err, st') \<Rightarrow> (Inl err, st')
      | (Inr items, st') \<Rightarrow> main_loop clk dp feed cfg srcs (all_items @ items) st')"
  by simp

lemma main_loop_Cons_other:
  "src_type src \<noteq> Some ''rss'' \<Longrightarrow>
   main_loop clk dp feed cfg (src # srcs) all_items st = main_loop clk dp feed cfg srcs all_items st"
  by simp

lemma fetch_rss_source_mono:
  "fetch_rss_source clk dp feed src cfg st = (r, st') \<Longrightarrow>
   already_seen (seen st) iid \<Longrightarrow> already_seen (seen st') iid"
  unfolding fetch_rss_source_def by (rule fetch_rss_loop_mono)

lemma main_loop_mono:
  "main_loop clk dp feed cfg srcs all_items st = (r, st') \<Longrightarrow>
   already_seen (seen st) iid \<Longrightarrow> already_seen (seen st') iid"
proof (induction srcs arbitrary: all_items st)
  case Nil
  then show ?case by simp
next
  case (Cons src srcs)
  show ?case
  proof (cases "src_type src = Some ''rss''")
    case False
    with Cons.prems(1) have "main_loop clk dp feed cfg srcs all_items st = (r, st')"
      by (simp add: main_loop_Cons_other)
    from Cons.IH [OF this Cons.prems(2)] show ?thesis .
  next
    case True
    obtain r1 st1 where f: "fetch_rss_source clk dp feed src cfg st = (r1, st1)"
      by (cases "fetch_rss_source clk dp feed src cfg st") auto
    have s1: "already_seen (seen st1) iid"
      using f Cons.prems(2) by (rule fetch_rss_source_mono)
    show ?thesis
    proof (cases r1)
      case (Inl err)
      with Cons.prems(1) True f s1 show ?thesis by (simp add: main_loop_Cons_rss)
    next
      case (Inr items)
      with Cons.prems(1) True f
      have "main_loop clk dp feed cfg srcs (all_items @ items) st1 = (r, st')"
        by (simp add: main_loop_Cons_rss)
      from Cons.IH [OF this s1] show ?thesis .
    qed
  qed
qed

lemma main_loop_marks:
  "main_loop clk dp feed cfg srcs all_items st = (Inr out, st') \<Longrightarrow> src \<in> set srcs \<Longrightarrow>
   src_type src = Some ''rss'' \<Longrightarrow> e \<in> set (take 200 (feed (src_url src))) \<Longrightarrow>
   score_item (entry_blob e) cfg = Inr (True, sc) \<Longrightarrow> already_seen (seen st') (entry_id e)"
proof (induction srcs arbitrary: all_items st)
  case Nil
  then show ?case by simp
next
  case (Cons x srcs)
  show ?case
  proof (cases "src_type x = Some ''rss''")
    case False
    with Cons.prems(1) have run: "main_loop clk dp feed cfg srcs all_items st = (Inr out, st')"
      by (simp add: main_loop_Cons_other)
    from False Cons.prems(2,3) have "src \<in> set srcs" by auto
    from Cons.IH [OF run this Cons.prems(3,4,5)] show ?thesis .
  next
    case True
    obtain r1 st1 where f: "fetch_rss_source clk dp feed x cfg st = (r1, st1)"
      by (cases "fetch_rss_source clk dp feed x cfg st") auto
    with Cons.prems(1) True obtain items where r1: "r1 = Inr items"
      by (cases r1) (simp_all add: main_loop_Cons_rss)
    with Cons.prems(1) True f
    have run: "main_loop clk dp feed cfg srcs (all_items @ items) st1 = (Inr out, st')"
      by (simp add: main_loop_Cons_rss)
    show ?thesis
    proof (cases "src = x")
      case True
      from f r1 have "fetch_rss_loop clk dp x cfg (take 200 (feed (src_url x))) [] st = (Inr items, st1)"
        by (simp add: fetch_rss_source_def)
      from fetch_rss_loop_marks [OF this] Cons.prems(4,5) True
      have "already_seen (seen st1) (entry_id e)" by simp
      with run show ?thesis by (rule main_loop_mono)
    next
      case False
      with Cons.prems(2) have "src \<in> set srcs" by simp
      from Cons.IH [OF run this Cons.prems(3,4,5)] show ?thesis .
    qed
  qed
qed

lemma main_loop_second:
  "main_loop clk dp feed cfg srcs all0 st0 = (Inr out, st1) \<Longrightarrow>
   (\<And>iid. already_seen (seen st1) iid \<Longrightarrow> already_seen (seen st) iid) \<Longrightarrow>
   main_loop clk' dp' feed cfg srcs all_items st = (Inr all_items, st)"
proof (induction srcs arbitrary: all0 st0)
  case Nil
  then show ?case by simp
next
  case (Cons x srcs)
  show ?case
  proof (cases "src_type x = Some ''rss''")
    case False
    with Cons.prems(1) have "main_loop clk dp feed cfg srcs all0 st0 = (Inr out, st1)"
      by (simp add: main_loop_Cons_other)
    from Cons.IH [OF this Cons.prems(2)] False show ?thesis
      by (simp add: main_loop_Cons_other)
  next
    case True
    obtain r1 s1 where f: "fetch_rss_source clk dp feed x cfg st0 = (r1, s1)"
      by (cases "fetch_rss_source clk dp feed x cfg st0") auto
    with Cons.prems(1) True obtain items where r1: "r1 = Inr items"
      by (cases r1) (simp_all add: main_loop_Cons_rss)
    with Cons.prems(1) True f
    have run: "main_loop clk dp feed cfg srcs (all0 @ items) s1 = (Inr out, st1)"
      by (simp add: main_loop_Cons_rss)
    from f r1 have first: "fetch_rss_loop clk dp x cfg (take 200 (feed (src_url x))) [] st0 = (Inr items, s1)"
      by (simp add: fetch_rss_source_def)
    have "already_seen (seen st) iid" if "already_seen (seen s1) iid" for iid
      using main_loop_mono [OF run that] Cons.prems(2) by blast
    from fetch_rss_loop_second [OF first this]
    have "fetch_rss_source clk' dp' feed x cfg st = (Inr [], st)"
      by (simp add: fetch_rss_source_def)
    with Cons.IH [OF run Cons.prems(2)] True show ?thesis
      by (simp add: main_loop_Cons_rss)
  qed
qed

lemma slice_to_Nil: "slice_to [] n = []"
  by (simp add: slice_to_def)

text \<open>
  C1. When a run over the feeds has completed, a second run over the same feeds with the
  same configuration, from the state the first one left, shows no item and leaves the
  state as it is: no row is added and the clock is not read, so \<open>mark_seen\<close> is not
  called again. The same holds for one source. The clock and the date parser of the second
  run may differ from those of the first.
\<close>

theorem dedup_across_runs:
  "(main clk dp feed cfg st0 = (Inr out1, st1) \<longrightarrow> main clk' dp' feed cfg st1 = (Inr [], st1)) \<and>
   (fetch_rss_source clk dp feed src cfg st0 = (Inr out1, st1) \<longrightarrow>
      fetch_rss_source clk' dp' feed src cfg st1 = (Inr [], st1))"
proof (intro conjI impI)
  assume run: "main clk dp feed cfg st0 = (Inr out1, st1)"
  obtain r s where ml: "main_loop clk dp feed cfg (dict_get (cfg_sources cfg) []) [] st0 = (r, s)"
    by (cases "main_loop clk dp feed cfg (dict_get (cfg_sources cfg) []) [] st0") auto
  with run obtain all_items where r: "r = Inr all_items"
    by (cases r) (simp_all add: main_def)
  from run ml r have s: "s = st1" and srt: "items_sorted all_items cfg = Inr out1"
    by (simp_all add: main_def)
  from srt obtain em where em: "cfg_email cfg = Some em"
    by (cases "cfg_email cfg") (simp_all add: items_sorted_def)
  from ml r s have "main_loop clk dp feed cfg (dict_get (cfg_sources cfg) []) [] st0 = (Inr all_items, st1)"
    by simp
  from main_loop_second [OF this]
  have "main_loop clk' dp' feed cfg (dict_get (cfg_sources cfg) []) [] st1 = (Inr [], st1)"
    by blast
  then show "main clk' dp' feed cfg st1 = (Inr [], st1)"
    by (simp add: main_def items_sorted_def em slice_to_Nil)
next
  assume "fetch_rss_source clk dp feed src cfg st0 = (Inr out1, st1)"
  then have "fetch_rss_loop clk dp src cfg (take 200 (feed (src_url src))) [] st0 = (Inr out1, st1)"
    by (simp add: fetch_rss_source_def)
  from fetch_rss_loop_second [OF this]
  show "fetch_rss_source clk' dp' feed src cfg st1 = (Inr [], st1)"
    by (simp add: fetch_rss_source_def)
qed


section \<open>Evaluating SHA-256\<close>

lemma schedule_ext_numeral:
  "schedule_ext (numeral k) (w0 # w1 # w2 # w3 # w4 # w5 # w6 # w7 # w8 # w9 # w10 # w11 # w12 # w13 # w14 # w15 # r) =
     add32 (add32 (add32 (ssig1 w14) w9) (ssig0 w1)) w0 #
     schedule_ext (pred_numeral k)
       [w1, w2, w3, w4, w5, w6, w7, w8, w9, w10, w11, w12, w13, w14, w15,
        add32 (add32 (add32 (ssig1 w14) w9) (ssig0 w1)) w0]"
  by (simp add: numeral_eq_Suc Let_def)

lemma schedule_ext_1:
  "schedule_ext 1 (w0 # w1 # w2 # w3 # w4 # w5 # w6 # w7 # w8 # w9 # w10 # w11 # w12 # w13 # w14 # w15 # r) =
     [add32 (add32 (add32 (ssig1 w14) w9) (ssig0 w1)) w0]"
  by (simp add: Let_def)

lemma replicate_numeral: "replicate (numeral k) x = x # replicate (pred_numeral k) x"
  by (simp add: numeral_eq_Suc)

lemmas sha_eval = sha256_pad_def be64_def replicate_numeral schedule_def schedule_ext_numeral
  schedule_ext_1 rotr_def ssig0_def ssig1_def bsig0_def bsig1_def Ch_def Maj_def add32_def not32_def
  compress_def sha256_K_def sha256_init_def hex32_def hex_digit_def sha256_hexdigest_def

text \<open>The test vector of FIPS 180-4 for the message \<open>abc\<close>.\<close>

lemma sha256_abc:
  "sha256_hexdigest (utf8 ''abc'') = ''ba7816bf8f01cfea414140de5dae2223b00361a396177a9cb410ff61f20015ad''"
  by (simp add: utf8_def sha_eval)

lemma sha256_xy:
  "sha256_hexdigest (utf8 ''hello world|http://x/y'') =
     ''56a6edb621e9f397a682a358b95ea0b50ad294cdfd06436d4d10ee30e9c5ddac''"
  by (simp add: utf8_def sha_eval)

lemma sha256_xz:
  "sha256_hexdigest (utf8 ''hello world|http://x/z'') =
     ''de041d8e21d922b9806adf6d1a520aed28a25363fcfd4846a0b43fc1f4e3456d''"
  by (simp add: utf8_def sha_eval)


section \<open>The example run\<close>

lemma item_id_xy: "item_id ''Hello World'' ''http://x/y'' =
    ''56a6edb621e9f397a682a358b95ea0b50ad294cdfd06436d4d10ee30e9c5ddac''"
proof -
  have "item_id_base ''Hello World'' ''http://x/y'' = ''hello world|http://x/y''"
    by (simp add: item_id_base_def text_eval)
  then show ?thesis by (simp only: item_id_def sha256_xy)
qed

lemma item_id_xz: "item_id ''Hello World'' ''http://x/z'' =
    ''de041d8e21d922b9806adf6d1a520aed28a25363fcfd4846a0b43fc1f4e3456d''"
proof -
  have "item_id_base ''Hello World'' ''http://x/z'' = ''hello world|http://x/z''"
    by (simp add: item_id_base_def text_eval)
  then show ?thesis by (simp only: item_id_def sha256_xz)
qed

lemma ex_entry_fields:
  "entry_title (ex_entry lnk) = ''Hello World''"
  "entry_summary (ex_entry lnk) = []"
  "parse_date dp (ex_entry lnk) = []"
  by (simp_all add: ex_entry_def entry_title_def entry_summary_def parse_date_def dict_get_def
        str_strip_def is_space_def)

lemma ex_entry_link:
  "entry_link (ex_entry ''http://x/y'') = ''http://x/y''"
  "entry_link (ex_entry ''http://x/z'') = ''http://x/z''"
  by (simp_all add: ex_entry_def entry_link_def dict_get_def str_strip_def is_space_def)

lemma ex_entry_id:
  "entry_id (ex_entry ''http://x/y'') = ''56a6edb621e9f397a682a358b95ea0b50ad294cdfd06436d4d10ee30e9c5ddac''"
  "entry_id (ex_entry ''http://x/z'') = ''de041d8e21d922b9806adf6d1a520aed28a25363fcfd4846a0b43fc1f4e3456d''"
  by (simp_all add: entry_id_def ex_entry_fields ex_entry_link item_id_xy item_id_xz)

lemma ex_entry_score:
  "score_item (entry_blob (ex_entry lnk)) ex_run_cfg = Inr (True, 60)"
proof -
  have n: "normalize_text (entry_blob (ex_entry lnk)) = ''hello world''"
    by (simp add: entry_blob_def ex_entry_fields text_eval)
  have kw: "cfg_keywords ex_run_cfg =
      Some \<lparr>exclude_any = None, must_have_any = None, nice_to_have_any = None\<rparr>"
    by (simp add: ex_run_cfg_def)
  show ?thesis
    by (simp add: score_item_Some [OF kw] n dict_get_def bonus_terms_def)
qed

lemma ex_make_item:
  "make_item dp ex_src (ex_entry ''http://x/y'') 60 = ex_item ''http://x/y''"
  "make_item dp ex_src (ex_entry ''http://x/z'') 60 = ex_item ''http://x/z''"
  by (simp_all add: make_item_def ex_entry_fields ex_entry_link ex_src_def ex_item_def dict_get_def)

lemma ex_fetch_first:
  "fetch_rss_source ex_clock dp ex_feed ex_src ex_run_cfg ex_st0 =
     (Inr [ex_item ''http://x/y'', ex_item ''http://x/z''], ex_st2)"
proof -
  have feed: "take 200 (ex_feed (src_url ex_src)) = [ex_entry ''http://x/y'', ex_entry ''http://x/z'']"
    by (simp add: ex_feed_def ex_src_def)
  show ?thesis
    by (simp add: fetch_rss_source_def feed fetch_rss_loop_Cons ex_entry_score ex_entry_id
          ex_make_item ex_st0_def ex_st2_def already_seen_def mark_seen_def insert_or_ignore_def
          ex_clock_def)
qed

lemma ex_main_first:
  "main ex_clock dp ex_feed ex_run_cfg ex_st0 = (Inr [ex_item ''http://x/y''], ex_st2)"
proof -
  have srcs: "dict_get (cfg_sources ex_run_cfg) [] = [ex_src]"
    by (simp add: ex_run_cfg_def dict_get_def)
  have rss: "src_type ex_src = Some ''rss''"
    by (simp add: ex_src_def)
  have loop: "main_loop ex_clock dp ex_feed ex_run_cfg [ex_src] [] ex_st0 =
      (Inr [ex_item ''http://x/y'', ex_item ''http://x/z''], ex_st2)"
    by (simp add: rss ex_fetch_first)
  have srt: "items_sorted [ex_item ''http://x/y'', ex_item ''http://x/z''] ex_run_cfg =
      Inr [ex_item ''http://x/y'']"
    by (simp add: items_sorted_def ex_run_cfg_def slice_to_def key_lt_def ex_item_def)
  show ?thesis
    by (simp add: main_def srcs loop srt del: main_loop.simps)
qed

theorem dedup_across_runs_witness:
  "main ex_clock ex_dp ex_feed ex_run_cfg ex_st0 = (Inr [ex_item ''http://x/y''], ex_st2) \<and>
   main ex_clock ex_dp ex_feed ex_run_cfg ex_st2 = (Inr [], ex_st2) \<and>
   fetch_rss_source ex_clock ex_dp ex_feed ex_src ex_run_cfg ex_st0 =
     (Inr [ex_item ''http://x/y'', ex_item ''http://x/z''], ex_st2) \<and>
   fetch_rss_source ex_clock ex_dp ex_feed ex_src ex_run_cfg ex_st2 = (Inr [], ex_st2)"
proof -
  have a: "main ex_clock ex_dp ex_feed ex_run_cfg ex_st0 = (Inr [ex_item ''http://x/y''], ex_st2)"
    by (rule ex_main_first)
  have b: "fetch_rss_source ex_clock ex_dp ex_feed ex_src ex_run_cfg ex_st0 =
     (Inr [ex_item ''http://x/y'', ex_item ''http://x/z''], ex_st2)"
    by (rule ex_fetch_first)
  from dedup_across_runs [of ex_clock ex_dp ex_feed ex_run_cfg ex_st0 "[ex_item ''http://x/y'']" ex_st2 ex_clock ex_dp] a
  have c: "main ex_clock ex_dp ex_feed ex_run_cfg ex_st2 = (Inr [], ex_st2)" by blast
  from dedup_across_runs [of ex_clock ex_dp ex_feed ex_run_cfg ex_st0
      "[ex_item ''http://x/y'', ex_item ''http://x/z'']" ex_st2 ex_clock ex_dp ex_src] b
  have d: "fetch_rss_source ex_clock ex_dp ex_feed ex_src ex_run_cfg ex_st2 = (Inr [], ex_st2)" by blast
  from a b c d show ?thesis by simp
qed

theorem mark_seen_idempotent_witness:
  "filter (\<lambda>row. fst row = ''a'')
     (seen (foldl (\<lambda>s i. mark_seen ex_clock i s) ex_st0 [''b'', ''a'', ''c'', ''a''])) =
     [(''a'', ''2024-03-01T00:00:01+00:00'')] \<and>
   filter (\<lambda>row. fst row = ''a'')
     (seen (foldl (\<lambda>s i. mark_seen ex_clock i s) ex_st0 (replicate 3 ''a''))) =
     [(''a'', ''2024-03-01T00:00:00+00:00'')] \<and>
   seen (mark_seen ex_clock ''a'' (mark_seen ex_clock ''a'' ex_st0)) = seen (mark_seen ex_clock ''a'' ex_st0)"
proof -
  have h1: "\<not> already_seen (seen ex_st0) ''a''"
    by (simp add: ex_st0_def already_seen_def)
  have h2: "''a'' \<in> set [''b'', ''a'', ''c'', ''a'']"
    by simp
  have h3: "already_seen (seen (mark_seen ex_clock ''a'' ex_st0)) ''a''"
    by (simp add: already_seen_mark_seen)
  note t = mark_seen_idempotent [OF h1 h2, of ex_clock]
  from t have a: "filter (\<lambda>row. fst row = ''a'')
     (seen (foldl (\<lambda>s i. mark_seen ex_clock i s) ex_st0 [''b'', ''a'', ''c'', ''a''])) =
     [(''a'', ''2024-03-01T00:00:01+00:00'')]"
    by (simp add: ex_st0_def ex_clock_def)
  from t have "filter (\<lambda>row. fst row = ''a'')
     (seen (foldl (\<lambda>s i. mark_seen ex_clock i s) ex_st0 (replicate 3 ''a''))) =
     [(''a'', ex_clock (clock_reads ex_st0))]"
    by (simp del: foldl_Cons replicate.simps)
  then have b: "filter (\<lambda>row. fst row = ''a'')
     (seen (foldl (\<lambda>s i. mark_seen ex_clock i s) ex_st0 (replicate 3 ''a''))) =
     [(''a'', ''2024-03-01T00:00:00+00:00'')]"
    by (simp add: ex_st0_def ex_clock_def)
  from t h3 have c: "seen (mark_seen ex_clock ''a'' (mark_seen ex_clock ''a'' ex_st0)) =
      seen (mark_seen ex_clock ''a'' ex_st0)"
    by blast
  from a b c show ?thesis by simp
qed


text \<open>
  C3. After \<open>fetch_rss_source\<close> has completed, the fingerprint of every entry among the
  first 200 that the scorer finds relevant is in the table; that is the state before
  \<open>items_sorted\<close> sorts and truncates, and \<open>main\<close> ends in it whatever \<open>max_items\<close> is.
  In the example \<open>max_items\<close> is 1 and the feed has two new relevant entries: the digest
  shows one item and the table holds both fingerprints, which differ.
\<close>

theorem truncation_marks_seen:
  "(fetch_rss_source clk dp feed src cfg st = (Inr items, st') \<and>
    e \<in> set (take 200 (feed (src_url src))) \<and> score_item (entry_blob e) cfg = Inr (True, sc)
      \<longrightarrow> already_seen (seen st') (entry_id e)) \<and>
   (main clk dp feed cfg st = (Inr out, st') \<and>
    src \<in> set (dict_get (cfg_sources cfg) []) \<and> src_type src = Some ''rss'' \<and>
    e \<in> set (take 200 (feed (src_url src))) \<and> score_item (entry_blob e) cfg = Inr (True, sc)
      \<longrightarrow> already_seen (seen st') (entry_id e)) \<and>
   (cfg_email ex_run_cfg = Some \<lparr>subject_prefix = ''[Monitor]'', max_items = 1\<rparr> \<and>
    main ex_clock dp ex_feed ex_run_cfg ex_st0 = (Inr [ex_item ''http://x/y''], ex_st2) \<and>
    entry_id (ex_entry ''http://x/y'') \<noteq> entry_id (ex_entry ''http://x/z'') \<and>
    already_seen (seen ex_st2) (entry_id (ex_entry ''http://x/y'')) \<and>
    already_seen (seen ex_st2) (entry_id (ex_entry ''http://x/z'')))"
proof (intro conjI impI)
  assume h: "fetch_rss_source clk dp feed src cfg st = (Inr items, st') \<and>
    e \<in> set (take 200 (feed (src_url src))) \<and> score_item (entry_blob e) cfg = Inr (True, sc)"
  then have "fetch_rss_loop clk dp src cfg (take 200 (feed (src_url src))) [] st = (Inr items, st')"
    by (simp add: fetch_rss_source_def)
  from fetch_rss_loop_marks [OF this] h show "already_seen (seen st') (entry_id e)"
    by blast
next
  assume h: "main clk dp feed cfg st = (Inr out, st') \<and>
    src \<in> set (dict_get (cfg_sources cfg) []) \<and> src_type src = Some ''rss'' \<and>
    e \<in> set (take 200 (feed (src_url src))) \<and> score_item (entry_blob e) cfg = Inr (True, sc)"
  obtain r s where ml: "main_loop clk dp feed cfg (dict_get (cfg_sources cfg) []) [] st = (r, s)"
    by (cases "main_loop clk dp feed cfg (dict_get (cfg_sources cfg) []) [] st") auto
  with h obtain all_items where r: "r = Inr all_items"
    by (cases r) (simp_all add: main_def)
  from h ml r have "s = st'"
    by (simp add: main_def)
  with ml r have "main_loop clk dp feed cfg (dict_get (cfg_sources cfg) []) [] st = (Inr all_items, st')"
    by simp
  from main_loop_marks [OF this] h show "already_seen (seen st') (entry_id e)"
    by blast
next
  show "cfg_email ex_run_cfg = Some \<lparr>subject_prefix = ''[Monitor]'', max_items = 1\<rparr>"
    by (simp add: ex_run_cfg_def)
  show "main ex_clock dp ex_feed ex_run_cfg ex_st0 = (Inr [ex_item ''http://x/y''], ex_st2)"
    by (rule ex_main_first)
  show "entry_id (ex_entry ''http://x/y'') \<noteq> entry_id (ex_entry ''http://x/z'')"
    by (simp add: ex_entry_id)
  show "already_seen (seen ex_st2) (entry_id (ex_entry ''http://x/y''))"
    by (simp add: ex_entry_id ex_st2_def already_seen_def)
  show "already_seen (seen ex_st2) (entry_id (ex_entry ''http://x/z''))"
    by (simp add: ex_entry_id ex_st2_def already_seen_def)
qed

theorem truncation_marks_seen_witness:
  "main ex_clock ex_dp ex_feed ex_run_cfg ex_st0 = (Inr [ex_item ''http://x/y''], ex_st2) \<and>
   ex_entry ''http://x/z'' \<in> set (take 200 (ex_feed (src_url ex_src))) \<and>
   score_item (entry_blob (ex_entry ''http://x/z'')) ex_run_cfg = Inr (True, 60) \<and>
   already_seen (seen ex_st2) (entry_id (ex_entry ''http://x/z''))"
proof -
  have a: "main ex_clock ex_dp ex_feed ex_run_cfg ex_st0 = (Inr [ex_item ''http://x/y''], ex_st2)"
    by (rule ex_main_first)
  have b: "ex_src \<in> set (dict_get (cfg_sources ex_run_cfg) [])"
    by (simp add: ex_run_cfg_def dict_get_def)
  have c: "src_type ex_src = Some ''rss''"
    by (simp add: ex_src_def)
  have d: "ex_entry ''http://x/z'' \<in> set (take 200 (ex_feed (src_url ex_src)))"
    by (simp add: ex_feed_def ex_src_def)
  have e: "score_item (entry_blob (ex_entry ''http://x/z'')) ex_run_cfg = Inr (True, 60)"
    by (rule ex_entry_score)
  from truncation_marks_seen [THEN conjunct2, THEN conjunct1, of ex_clock ex_dp ex_feed ex_run_cfg
      ex_st0 "[ex_item ''http://x/y'']" ex_st2 ex_src "ex_entry ''http://x/z''" 60] a b c d e
  have "already_seen (seen ex_st2) (entry_id (ex_entry ''http://x/z''))"
    by blast
  with a d e show ?thesis by simp
qed

text \<open>
  C10. Two entries with the same \<open>title\<close> and \<open>link\<close> have the same fingerprint, whatever
  their other fields are. Once that fingerprint is in the table, an entry that carries it
  is passed over wherever it stands in a feed: a completed pass gives the items and the
  state it gives without that entry. By \<open>fetch_rss_loop_mono\<close> the fingerprint stays in the
  table in every later state.
\<close>

theorem fingerprint_ignores_content:
  "e_title e2 = e_title e1 \<Longrightarrow> e_link e2 = e_link e1 \<Longrightarrow>
   entry_id e2 = entry_id e1 \<and>
   (already_seen (seen st) (entry_id e1) \<and>
    fetch_rss_loop clk dp src cfg (es1 @ e2 # es2) items st = (Inr out, st')
      \<longrightarrow> fetch_rss_loop clk dp src cfg (es1 @ es2) items st = (Inr out, st')) \<and>
   (already_seen (seen st) (entry_id e1) \<and> cfg_keywords cfg \<noteq> None
      \<longrightarrow> fetch_rss_loop clk dp src cfg (e2 # es) items st = fetch_rss_loop clk dp src cfg es items st)"
proof -
  assume t: "e_title e2 = e_title e1" and l: "e_link e2 = e_link e1"
  then have id: "entry_id e2 = entry_id e1"
    by (simp add: entry_id_def entry_title_def entry_link_def)
  have skip: "fetch_rss_loop clk dp src cfg (e2 # es) items' s = fetch_rss_loop clk dp src cfg es items' s"
    if "already_seen (seen s) (entry_id e1)" and "score_item (entry_blob e2) cfg = Inr ks"
    for es items' s ks
    using that id by (simp add: fetch_rss_loop_Cons)
  have mid: "fetch_rss_loop clk dp src cfg (es1 @ es2) items st = (Inr out, st')"
    if seen: "already_seen (seen st) (entry_id e1)"
      and run: "fetch_rss_loop clk dp src cfg (es1 @ e2 # es2) items st = (Inr out, st')"
  proof -
    obtain r1 s1 where p: "fetch_rss_loop clk dp src cfg es1 items st = (r1, s1)"
      by (cases "fetch_rss_loop clk dp src cfg es1 items st") auto
    with run obtain it1 where r1: "r1 = Inr it1"
      by (cases r1) (simp_all add: fetch_rss_loop_append)
    from run p r1 have rest: "fetch_rss_loop clk dp src cfg (e2 # es2) it1 s1 = (Inr out, st')"
      by (simp add: fetch_rss_loop_append)
    from p seen have s1: "already_seen (seen s1) (entry_id e1)"
      by (rule fetch_rss_loop_mono)
    from rest obtain ks where "score_item (entry_blob e2) cfg = Inr ks"
      by (cases "score_item (entry_blob e2) cfg") (simp_all add: fetch_rss_loop_Cons)
    from skip [OF s1 this] rest have "fetch_rss_loop clk dp src cfg es2 it1 s1 = (Inr out, st')"
      by simp
    with p r1 show ?thesis
      by (simp add: fetch_rss_loop_append)
  qed
  have hd: "fetch_rss_loop clk dp src cfg (e2 # es) items st = fetch_rss_loop clk dp src cfg es items st"
    if "already_seen (seen st) (entry_id e1)" and "cfg_keywords cfg \<noteq> None"
  proof -
    from that(2) obtain kw where kw: "cfg_keywords cfg = Some kw" by auto
    have "\<exists>ks. score_item (entry_blob e2) cfg = Inr ks"
      by (auto simp: score_item_Some [OF kw])
    then obtain ks where "score_item (entry_blob e2) cfg = Inr ks" ..
    from skip [OF that(1) this] show ?thesis .
  qed
  from id mid hd show ?thesis by blast
qed

theorem fingerprint_ignores_content_witness:
  "entry_id ex_entry_edited = entry_id (ex_entry ''http://x/y'') \<and>
   summary (make_item ex_dp ex_src ex_entry_edited 65) \<noteq> summary (make_item ex_dp ex_src (ex_entry ''http://x/y'') 60) \<and>
   fetch_rss_loop ex_clock ex_dp ex_src ex_run_cfg [ex_entry_edited] [] ex_st2 = (Inr [], ex_st2) \<and>
   fetch_rss_loop ex_clock ex_dp ex_src ex_run_cfg [ex_entry ''http://x/z'', ex_entry_edited] [] ex_st2 =
     fetch_rss_loop ex_clock ex_dp ex_src ex_run_cfg [ex_entry ''http://x/z''] [] ex_st2"
proof -
  have t: "e_title ex_entry_edited = e_title (ex_entry ''http://x/y'')"
    and l: "e_link ex_entry_edited = e_link (ex_entry ''http://x/y'')"
    by (simp_all add: ex_entry_edited_def)
  have s: "already_seen (seen ex_st2) (entry_id (ex_entry ''http://x/y''))"
    by (simp add: ex_entry_id ex_st2_def already_seen_def)
  have k: "cfg_keywords ex_run_cfg \<noteq> None"
    by (simp add: ex_run_cfg_def)
  have z: "fetch_rss_loop ex_clock ex_dp ex_src ex_run_cfg [ex_entry ''http://x/z''] [] ex_st2 = (Inr [], ex_st2)"
    by (simp add: fetch_rss_loop_Cons ex_entry_score ex_entry_id ex_st2_def already_seen_def)
  note th = fingerprint_ignores_content [OF t l]
  from th have a: "entry_id ex_entry_edited = entry_id (ex_entry ''http://x/y'')"
    by blast
  from th [of ex_st2 ex_clock ex_dp ex_src ex_run_cfg "[]" "[]" "[]" "[]" ex_st2 "[]"] s k
  have b: "fetch_rss_loop ex_clock ex_dp ex_src ex_run_cfg [ex_entry_edited] [] ex_st2 = (Inr [], ex_st2)"
    by simp
  from b z have run: "fetch_rss_loop ex_clock ex_dp ex_src ex_run_cfg ([ex_entry ''http://x/z''] @ ex_entry_edited # []) [] ex_st2 = (Inr [], ex_st2)"
    by (simp add: fetch_rss_loop_Cons ex_entry_score ex_entry_id ex_st2_def already_seen_def)
  from th [of ex_st2 ex_clock ex_dp ex_src ex_run_cfg "[ex_entry ''http://x/z'']" "[]" "[]" "[]" ex_st2 "[]"] s run
  have "fetch_rss_loop ex_clock ex_dp ex_src ex_run_cfg ([ex_entry ''http://x/z''] @ []) [] ex_st2 = (Inr [], ex_st2)"
    by blast
  with run have c: "fetch_rss_loop ex_clock ex_dp ex_src ex_run_cfg [ex_entry ''http://x/z'', ex_entry_edited] [] ex_st2 =
     fetch_rss_loop ex_clock ex_dp ex_src ex_run_cfg [ex_entry ''http://x/z''] [] ex_st2"
    by simp
  have d: "summary (make_item ex_dp ex_src ex_entry_edited 65) \<noteq> summary (make_item ex_dp ex_src (ex_entry ''http://x/y'') 60)"
    by (simp add: make_item_def ex_entry_edited_def ex_entry_def entry_summary_def dict_get_def
          str_strip_def is_space_def)
  from a b c d show ?thesis by simp
qed


end
